theory Spec2Isabelle
  imports
    Main
    "HOL-Library.Char_ord"
    "HOL-Library.List_Lexorder"
    "HOL-Library.AList"
    "HOL-Library.Multiset"
begin

section \<open>Python values used by the scraper\<close>

text \<open>
  A Python \<open>str\<close> is modelled as a \<open>string\<close>: one \<open>char\<close> per code point, for the
  code points below 256.  Exceptions are values of \<open>py_error\<close>; a function that may
  raise returns \<open>py_error + 'a\<close> with \<open>Inl\<close> for the exception.  The calls of
  \<open>logger\<close> and \<open>time.sleep\<close> change no result and are left out.
\<close>

datatype py_error =
  ValueError | IndexError | TypeError | FileNotFoundError | AuthError | TimeoutError

subsection \<open>\<open>int(str)\<close>\<close>

text \<open>
  \<open>int(s)\<close> in base ten: white space around the literal is skipped, one sign is
  allowed, the digits may be grouped by single underscores, and anything else raises
  \<open>ValueError\<close>.  Below code point 256 the white space of \<open>int\<close> is TAB, LF, VT, FF,
  CR, SPACE, NEL (0x85) and NBSP (0xA0), and the decimal digits are \<open>0\<close> to \<open>9\<close>.
  The interpreter's configurable limit on the number of digits is not modelled.
\<close>

definition is_space :: "char \<Rightarrow> bool" where
  "is_space c \<longleftrightarrow>
     c \<in> set [CHR 0x09, CHR 0x0A, CHR 0x0B, CHR 0x0C, CHR 0x0D, CHR 0x20, CHR 0x85, CHR 0xA0]"

definition is_digit :: "char \<Rightarrow> bool" where
  "is_digit c \<longleftrightarrow> c \<in> set ''0123456789''"

definition digit_val :: "char \<Rightarrow> nat" where
  "digit_val c = of_char c - 48"

definition dec_value :: "string \<Rightarrow> nat" where
  "dec_value ds = foldl (\<lambda>a c. 10 * a + digit_val c) 0 ds"

definition is_literal_char :: "char \<Rightarrow> bool" where
  "is_literal_char c \<longleftrightarrow> is_digit c \<or> c = CHR ''_''"

fun underscores_single :: "string \<Rightarrow> bool" where
  "underscores_single (c # d # cs) =
     (\<not> (c = CHR ''_'' \<and> d = CHR ''_'') \<and> underscores_single (d # cs))"
| "underscores_single cs = True"

definition int_body_ok :: "string \<Rightarrow> bool" where
  "int_body_ok b \<longleftrightarrow>
     b \<noteq> [] \<and> hd b \<noteq> CHR ''_'' \<and> last b \<noteq> CHR ''_'' \<and> underscores_single b"

definition py_int :: "string \<Rightarrow> py_error + int" where
  "py_int s =
     (let t = dropWhile is_space s;
          neg = (case t of [] \<Rightarrow> False | c # _ \<Rightarrow> c = CHR ''-'');
          u = (case t of [] \<Rightarrow> [] | c # r \<Rightarrow> if c = CHR ''+'' \<or> c = CHR ''-'' then r else t);
          body = takeWhile is_literal_char u;
          rest = dropWhile is_literal_char u
      in if int_body_ok body \<and> list_all is_space rest
         then Inr ((if neg then - 1 else 1) * int (dec_value (filter is_digit body)))
         else Inl ValueError)"

subsection \<open>\<open>str.find\<close> with a one-character needle\<close>

text \<open>\<open>None\<close> stands for Python's \<open>-1\<close>.\<close>

fun py_find :: "char \<Rightarrow> string \<Rightarrow> nat option" where
  "py_find c [] = None"
| "py_find c (x # xs) = (if x = c then Some 0 else map_option Suc (py_find c xs))"

section \<open>\<open>parse_duration\<close>\<close>

text \<open>
  The three blocks of \<open>parse_duration\<close> that look for \<open>H\<close>, \<open>M\<close> and \<open>S\<close> are the
  same code: find the marker; when it is there, convert the text in front of it with
  \<open>int\<close> and continue with the text behind it; when it is not, the unit stays \<open>0\<close> and
  the text is unchanged.  (The third block does not cut \<open>time_str\<close>, which is not read
  again.)
\<close>

definition extract_unit :: "char \<Rightarrow> string \<Rightarrow> py_error + (int \<times> string)" where
  "extract_unit marker time_str =
     (case py_find marker time_str of
        None \<Rightarrow> Inr (0, time_str)
      | Some pos \<Rightarrow>
          (case py_int (take pos time_str) of
             Inl e \<Rightarrow> Inl e
           | Inr n \<Rightarrow> Inr (n, drop (pos + 1) time_str)))"

definition parse_duration :: "string \<Rightarrow> py_error + int" where
  "parse_duration duration_iso =
     (let time_str = drop 2 duration_iso in
      case extract_unit CHR ''H'' time_str of
        Inl e \<Rightarrow> Inl e
      | Inr (hours, time_str) \<Rightarrow>
          (case extract_unit CHR ''M'' time_str of
             Inl e \<Rightarrow> Inl e
           | Inr (minutes, time_str) \<Rightarrow>
               (case extract_unit CHR ''S'' time_str of
                  Inl e \<Rightarrow> Inl e
                | Inr (seconds, _) \<Rightarrow> Inr (hours * 3600 + minutes * 60 + seconds))))"


text \<open>
  The shape of the strings the duration examples are written in: a two-character
  prefix, then an optional hour, minute and second component, each a non-empty run of
  decimal digits followed by its marker.  \<open>None\<close> is a component that is left out.
\<close>

definition decimal :: "string \<Rightarrow> bool" where
  "decimal ds \<longleftrightarrow> ds \<noteq> [] \<and> list_all is_digit ds"

definition opt_decimal :: "string option \<Rightarrow> bool" where
  "opt_decimal d = (case d of None \<Rightarrow> True | Some ds \<Rightarrow> decimal ds)"

definition unit_text :: "string option \<Rightarrow> char \<Rightarrow> string" where
  "unit_text d marker = (case d of None \<Rightarrow> [] | Some ds \<Rightarrow> ds @ [marker])"

definition unit_value :: "string option \<Rightarrow> int" where
  "unit_value d = (case d of None \<Rightarrow> 0 | Some ds \<Rightarrow> int (dec_value ds))"

definition is_marker :: "char \<Rightarrow> bool" where
  "is_marker c \<longleftrightarrow> c = CHR ''H'' \<or> c = CHR ''M'' \<or> c = CHR ''S''"

section \<open>Remote calls and dictionaries\<close>

text \<open>
  \<open>request.execute()\<close> raises \<open>HttpError\<close>, the one exception the fetchers catch, or
  raises another exception (a transport failure such as \<open>TimeoutError\<close>), which no
  fetcher catches, or returns the decoded response.

  A Python \<open>dict\<close> keeps its keys in insertion order: it is an association list with
  distinct keys, \<open>d[k] = v\<close> is \<open>AList.update k v d\<close> (the value is replaced in place
  when \<open>k\<close> is there and the pair is appended when it is not), \<open>d.get(k)\<close> is
  \<open>map_of d k\<close> and \<open>d.items()\<close> is the list itself.
\<close>

datatype 'a outcome = HttpError | Raised py_error | Response 'a

type_synonym ('k, 'v) dict = "('k \<times> 'v) list"

section \<open>\<open>get_annual_views\<close>\<close>

text \<open>
  A cell of a report row is a JSON value: a number, a string, or anything \<open>int\<close>
  rejects with \<open>TypeError\<close> (\<open>null\<close>, a list, an object).  \<open>rows\<close> is \<open>None\<close> when the
  response has no \<open>"rows"\<close> key.
\<close>

datatype json = JInt int | JStr string | JNull

record report =
  rows :: "json list list option"

definition int_of_json :: "json \<Rightarrow> py_error + int" where
  "int_of_json v = (case v of JInt n \<Rightarrow> Inr n | JStr s \<Rightarrow> py_int s | JNull \<Rightarrow> Inl TypeError)"

text \<open>\<open>response.get("rows", [[0]])[0][0]\<close>\<close>

definition first_cell :: "report \<Rightarrow> py_error + json" where
  "first_cell response =
     (case rows response of
        None \<Rightarrow> Inr (JInt 0)
      | Some [] \<Rightarrow> Inl IndexError
      | Some ([] # _) \<Rightarrow> Inl IndexError
      | Some ((v # _) # _) \<Rightarrow> Inr v)"

text \<open>
  The query of one year is fixed by the channel and the year (the two dates are
  \<open>f"{year}-01-01"\<close> and \<open>f"{year}-12-31"\<close>), so the reporting surface is a function
  of both.  The loop runs over \<open>range(start_year, end_year + 1)\<close>.
\<close>

fun annual_loop ::
  "(int \<Rightarrow> report outcome) \<Rightarrow> int list \<Rightarrow> (int, int) dict \<Rightarrow> py_error + (int, int) dict" where
  "annual_loop query [] annual_views = Inr annual_views"
| "annual_loop query (year # years) annual_views =
     (case query year of
        HttpError \<Rightarrow> annual_loop query years (AList.update year 0 annual_views)
      | Raised e \<Rightarrow> Inl e
      | Response response \<Rightarrow>
          (case first_cell response of
             Inl e \<Rightarrow> Inl e
           | Inr views \<Rightarrow>
               (case int_of_json views of
                  Inl e \<Rightarrow> Inl e
                | Inr n \<Rightarrow> annual_loop query years (AList.update year n annual_views))))"

definition get_annual_views ::
  "(string \<Rightarrow> int \<Rightarrow> report outcome) \<Rightarrow> string \<Rightarrow> int \<Rightarrow> int \<Rightarrow> py_error + (int, int) dict" where
  "get_annual_views youtube_analytics channel_id start_year end_year =
     annual_loop (youtube_analytics channel_id) [start_year..end_year] []"

text \<open>
  What a year's call leaves in the mapping when it can be used: \<open>0\<close> after an
  \<open>HttpError\<close>, the first cell as an integer after a response where that cell can be
  read.
\<close>

definition views_of :: "report \<Rightarrow> py_error + int" where
  "views_of response =
     (case first_cell response of Inl e \<Rightarrow> Inl e | Inr views \<Rightarrow> int_of_json views)"

definition usable :: "report outcome \<Rightarrow> bool" where
  "usable r = (case r of HttpError \<Rightarrow> True
               | Raised _ \<Rightarrow> False
               | Response response \<Rightarrow> (case views_of response of Inl _ \<Rightarrow> False | Inr _ \<Rightarrow> True))"

definition recorded_views :: "report outcome \<Rightarrow> int" where
  "recorded_views r = (case r of HttpError \<Rightarrow> 0
               | Raised _ \<Rightarrow> 0
               | Response response \<Rightarrow> (case views_of response of Inl _ \<Rightarrow> 0 | Inr n \<Rightarrow> n))"

section \<open>\<open>get_videos_by_year\<close>\<close>

text \<open>
  A playlist item carries the two fields the function reads by subscript,
  \<open>item["snippet"]["resourceId"]["videoId"]\<close> and \<open>item["snippet"]["publishedAt"]\<close>.
  A page has its \<open>"items"\<close> (\<open>None\<close> when the key is absent, read as \<open>[]\<close>) and its
  \<open>"nextPageToken"\<close>.
\<close>

record playlist_item =
  videoId :: string
  publishedAt :: string

record playlist_page =
  page_items :: "playlist_item list option"
  nextPageToken :: "string option"

definition items_of :: "playlist_page \<Rightarrow> playlist_item list" where
  "items_of page = (case page_items page of None \<Rightarrow> [] | Some its \<Rightarrow> its)"

text \<open>
  The loop body for one item: \<open>year = published_at[:4]\<close>, a new bucket when the year
  is not a key yet, and the identifier appended to the year's bucket.
\<close>

definition add_video ::
  "playlist_item \<Rightarrow> (string, string list) dict \<Rightarrow> (string, string list) dict" where
  "add_video item videos_by_year =
     (let video_id = videoId item;
          year = take 4 (publishedAt item)
      in case map_of videos_by_year year of
           None \<Rightarrow> AList.update year ([] @ [video_id]) (AList.update year [] videos_by_year)
         | Some bucket \<Rightarrow> AList.update year (bucket @ [video_id]) videos_by_year)"

text \<open>
  \<open>if not nextPageToken: break\<close> leaves the loop on \<open>None\<close> and on the empty string.
\<close>

definition next_token :: "playlist_page \<Rightarrow> string option" where
  "next_token page =
     (case nextPageToken page of None \<Rightarrow> None | Some t \<Rightarrow> if t = [] then None else Some t)"

text \<open>
  The \<open>while True\<close> loop.  Nothing bounds the number of pages, so the loop is a
  partial function and \<open>None\<close> is a run that never returns.  An \<open>HttpError\<close> of any
  call is caught around the whole loop and the mapping built so far is returned
  (\<open>Inr\<close>); any other exception of a call reaches the caller (\<open>Inl\<close>).
\<close>

partial_function (option) fetch_pages ::
  "(string option \<Rightarrow> playlist_page outcome) \<Rightarrow> string option \<Rightarrow> (string, string list) dict
     \<Rightarrow> (py_error + (string, string list) dict) option" where
  "fetch_pages list_call pageToken videos_by_year =
     (case list_call pageToken of
        HttpError \<Rightarrow> Some (Inr videos_by_year)
      | Raised e \<Rightarrow> Some (Inl e)
      | Response playlist_response \<Rightarrow>
          (case next_token playlist_response of
             None \<Rightarrow> Some (Inr (fold add_video (items_of playlist_response) videos_by_year))
           | Some t \<Rightarrow>
               fetch_pages list_call (Some t)
                 (fold add_video (items_of playlist_response) videos_by_year)))"

definition get_videos_by_year ::
  "(string \<Rightarrow> string option \<Rightarrow> playlist_page outcome) \<Rightarrow> string
     \<Rightarrow> (py_error + (string, string list) dict) option" where
  "get_videos_by_year youtube uploads_playlist_id =
     fetch_pages (youtube uploads_playlist_id) None []"

text \<open>
  \<open>chain list_call tok pages\<close>: the calls that start with the cursor \<open>tok\<close> are
  answered by \<open>pages\<close>, in this order, each page naming the cursor of the next one.
  \<open>cursor_after tok pages\<close> is the cursor of the call that follows them.
\<close>

fun chain :: "(string option \<Rightarrow> playlist_page outcome) \<Rightarrow> string option \<Rightarrow> playlist_page list \<Rightarrow> bool" where
  "chain list_call tok [] = True"
| "chain list_call tok (p # ps) =
     (list_call tok = Response p \<and>
      (case next_token p of None \<Rightarrow> ps = [] | Some t \<Rightarrow> chain list_call (Some t) ps))"

fun cursor_after :: "string option \<Rightarrow> playlist_page list \<Rightarrow> string option" where
  "cursor_after tok [] = tok"
| "cursor_after tok (p # ps) = cursor_after (next_token p) ps"

definition all_items :: "playlist_page list \<Rightarrow> playlist_item list" where
  "all_items pages = concat (map items_of pages)"

definition year_ids :: "string \<Rightarrow> playlist_item list \<Rightarrow> string list" where
  "year_ids y its = map videoId (filter (\<lambda>it. take 4 (publishedAt it) = y) its)"


section \<open>\<open>get_video_stats\<close>\<close>

text \<open>
  An item of a \<open>videos().list\<close> response.  The fields the function reads by subscript
  (\<open>item["id"]\<close>, \<open>item["snippet"]["title"]\<close>, \<open>item["snippet"]["publishedAt"]\<close>) are
  plain fields; the fields it reads with \<open>.get\<close> and a default are optional, \<open>None\<close>
  when the key or the object around it is absent.  The platform sends the counts as
  strings.
\<close>

record video_item =
  item_id :: string
  snippet_title :: string
  snippet_publishedAt :: string
  thumbnail_high_url :: "string option"
  viewCount :: "string option"
  likeCount :: "string option"
  commentCount :: "string option"
  content_duration :: "string option"

record video =
  title :: string
  views :: int
  likes :: int
  comments :: int
  duration :: int
  published_at :: string
  thumbnail :: string

record videos_response =
  video_items :: "video_item list option"

definition vitems_of :: "videos_response \<Rightarrow> video_item list" where
  "vitems_of response = (case video_items response of None \<Rightarrow> [] | Some its \<Rightarrow> its)"

text \<open>\<open>int(statistics.get(key, 0))\<close>\<close>

definition count_of :: "string option \<Rightarrow> py_error + int" where
  "count_of v = (case v of None \<Rightarrow> Inr 0 | Some s \<Rightarrow> py_int s)"

definition video_of_item :: "video_item \<Rightarrow> py_error + video" where
  "video_of_item item =
     (let duration_iso = (case content_duration item of None \<Rightarrow> ''PT0S'' | Some d \<Rightarrow> d) in
      case parse_duration duration_iso of
        Inl e \<Rightarrow> Inl e
      | Inr duration_seconds \<Rightarrow>
      (case count_of (viewCount item) of
        Inl e \<Rightarrow> Inl e
      | Inr view_count \<Rightarrow>
      (case count_of (likeCount item) of
        Inl e \<Rightarrow> Inl e
      | Inr like_count \<Rightarrow>
      (case count_of (commentCount item) of
        Inl e \<Rightarrow> Inl e
      | Inr comment_count \<Rightarrow>
          Inr \<lparr>title = snippet_title item,
               views = view_count,
               likes = like_count,
               comments = comment_count,
               duration = duration_seconds,
               published_at = snippet_publishedAt item,
               thumbnail = (case thumbnail_high_url item of None \<Rightarrow> [] | Some u \<Rightarrow> u)\<rparr>))))"

fun process_items ::
  "video_item list \<Rightarrow> (string, video) dict \<Rightarrow> py_error + (string, video) dict" where
  "process_items [] stats = Inr stats"
| "process_items (item # items) stats =
     (case video_of_item item of
        Inl e \<Rightarrow> Inl e
      | Inr v \<Rightarrow> process_items items (AList.update (item_id item) v stats))"

text \<open>\<open>",".join(batch)\<close>\<close>

fun join_ids :: "string list \<Rightarrow> string" where
  "join_ids [] = []"
| "join_ids [x] = x"
| "join_ids (x # y # zs) = x @ '','' @ join_ids (y # zs)"

text \<open>The batches \<open>video_ids[j:j+50]\<close> for \<open>j\<close> in \<open>range(i, len(video_ids), 50)\<close>; the source starts at \<open>i = 0\<close>.\<close>

function batches_from :: "nat \<Rightarrow> 'a list \<Rightarrow> 'a list list" where
  "batches_from i video_ids =
     (if i < length video_ids
      then take 50 (drop i video_ids) # batches_from (i + 50) video_ids
      else [])"
  by pat_completeness auto
termination
  by (relation "measure (\<lambda>(i, video_ids). length video_ids - i)") auto

declare batches_from.simps [simp del]

text \<open>
  The claims about this function count the calls it issues, so the platform has a state
  of its own here (what it has been asked so far, its quota, the videos as they are at
  that moment): a call takes the request and the state of the platform, and gives the
  outcome and the next state.
\<close>

type_synonym 'w videos_api = "string \<Rightarrow> 'w \<Rightarrow> videos_response outcome \<times> 'w"

text \<open>
  The loop over the batches.  An \<open>HttpError\<close> is caught inside the loop and the loop
  goes on with the next batch; any other exception, of the call or of the conversion of
  an item, leaves the function, and \<open>stats\<close> is lost with it.
\<close>

fun run_batches ::
  "'w videos_api \<Rightarrow> string list list \<Rightarrow> (string, video) dict \<Rightarrow> 'w
     \<Rightarrow> (py_error + (string, video) dict) \<times> 'w" where
  "run_batches videos_list [] stats w = (Inr stats, w)"
| "run_batches videos_list (batch # rest) stats w =
     (case videos_list (join_ids batch) w of
        (HttpError, w') \<Rightarrow> run_batches videos_list rest stats w'
      | (Raised e, w') \<Rightarrow> (Inl e, w')
      | (Response response, w') \<Rightarrow>
          (case process_items (vitems_of response) stats of
             Inl e \<Rightarrow> (Inl e, w')
           | Inr stats' \<Rightarrow> run_batches videos_list rest stats' w'))"

definition get_video_stats ::
  "'w videos_api \<Rightarrow> string list \<Rightarrow> 'w \<Rightarrow> (py_error + (string, video) dict) \<times> 'w" where
  "get_video_stats youtube video_ids w = run_batches youtube (batches_from 0 video_ids) [] w"

text \<open>
  What the properties of \<open>get_video_stats\<close> are stated with.  \<open>feed api requests w\<close>
  is the platform receiving these requests one after the other, once each: the outcomes
  it gives and the state it is left in.  \<open>recording answer\<close> is a platform whose state
  is the list of the requests it has received.  An outcome is \<open>acceptable\<close> when it is
  an \<open>HttpError\<close> or a response whose items the function can convert, and
  \<open>answered_items\<close> are the items of the responses, in order.  \<open>own_ids\<close> says that a
  batch is answered with items of that batch only.
\<close>

fun feed :: "'w videos_api \<Rightarrow> string list \<Rightarrow> 'w \<Rightarrow> videos_response outcome list \<times> 'w" where
  "feed api [] w = ([], w)"
| "feed api (request # requests) w =
     (case api request w of
        (out, w') \<Rightarrow> (case feed api requests w' of (outs, w'') \<Rightarrow> (out # outs, w'')))"

definition recording :: "(string \<Rightarrow> videos_response outcome) \<Rightarrow> string list videos_api" where
  "recording answer request received = (answer request, received @ [request])"

definition convertible :: "video_item \<Rightarrow> bool" where
  "convertible item = (case video_of_item item of Inl _ \<Rightarrow> False | Inr _ \<Rightarrow> True)"

definition acceptable :: "videos_response outcome \<Rightarrow> bool" where
  "acceptable out =
     (case out of
        HttpError \<Rightarrow> True
      | Raised _ \<Rightarrow> False
      | Response response \<Rightarrow> list_all convertible (vitems_of response))"

definition items_in :: "videos_response outcome \<Rightarrow> video_item list" where
  "items_in out = (case out of Response response \<Rightarrow> vitems_of response | _ \<Rightarrow> [])"

definition answered_items :: "videos_response outcome list \<Rightarrow> video_item list" where
  "answered_items outs = concat (map items_in outs)"

definition own_ids :: "string list list \<Rightarrow> videos_response outcome list \<Rightarrow> bool" where
  "own_ids batches outs =
     list_all (\<lambda>(batch, out). list_all (\<lambda>item. item_id item \<in> set batch) (items_in out))
       (zip batches outs)"

text \<open>
  For examples: an item with the given identifier and duration, and 51 identifiers
  \<open>v0\<close>, \<open>v1\<close>, \<open>v2\<close> (two batches, the second being \<open>v2\<close> alone; the character after
  \<open>v\<close> has the codes 0 to 50, and code 50 is the digit \<open>2\<close>).
\<close>

definition item_with :: "string \<Rightarrow> string \<Rightarrow> video_item" where
  "item_with i d =
     \<lparr>item_id = i, snippet_title = ''t'', snippet_publishedAt = ''2022-07-01T10:00:00Z'',
      thumbnail_high_url = None, viewCount = Some ''12'', likeCount = Some ''3'',
      commentCount = None, content_duration = Some d\<rparr>"

definition answer_with :: "video_item list \<Rightarrow> videos_response outcome" where
  "answer_with its = Response \<lparr>video_items = Some its\<rparr>"

definition first_fifty :: "string list" where
  "first_fifty = map (\<lambda>n. ''v'' @ [char_of n]) [0..<50::nat]"

definition fifty_one_ids :: "string list" where
  "fifty_one_ids = first_fifty @ [''v2'']"

section \<open>\<open>get_top_videos\<close>\<close>

text \<open>
  \<open>x[1].get(metric, 0)\<close> on a video record is an \<open>int\<close> or a \<open>str\<close>.  Python orders
  \<open>int\<close>s by value and \<open>str\<close>s by code points, lexicographically, and raises
  \<open>TypeError\<close> when it compares one with the other; all records have the same keys,
  so for one metric \<open>sorted\<close> never does, and the order between an \<open>int\<close> and a
  \<open>str\<close> below is not used.
\<close>

datatype pyval = PInt int | PStr string

instantiation pyval :: linorder
begin

fun less_eq_pyval :: "pyval \<Rightarrow> pyval \<Rightarrow> bool" where
  "less_eq_pyval (PInt a) (PInt b) = (a \<le> b)"
| "less_eq_pyval (PStr a) (PStr b) = (a \<le> b)"
| "less_eq_pyval (PInt a) (PStr b) = True"
| "less_eq_pyval (PStr a) (PInt b) = False"

definition less_pyval :: "pyval \<Rightarrow> pyval \<Rightarrow> bool" where
  "less_pyval x y = (x \<le> y \<and> \<not> y \<le> x)"

instance
proof
  fix x y z :: pyval
  show "(x < y) = (x \<le> y \<and> \<not> y \<le> x)" by (simp add: less_pyval_def)
  show "x \<le> x" by (cases x) simp_all
  show "x \<le> y \<Longrightarrow> y \<le> z \<Longrightarrow> x \<le> z" by (cases x; cases y; cases z) simp_all
  show "x \<le> y \<Longrightarrow> y \<le> x \<Longrightarrow> x = y" by (cases x; cases y) simp_all
  show "x \<le> y \<or> y \<le> x" by (cases x; cases y) auto
qed

end







section \<open>\<open>get_authenticated_services\<close>\<close>

text \<open>
  A credential as the function reads it: the token, \<open>creds.refresh_token\<close>,
  \<open>creds.expired\<close> and \<open>creds.valid\<close>.  The token file is absent, or cannot be loaded
  (the exception is logged and \<open>creds\<close> stays \<open>None\<close>), or holds a credential.  The
  surroundings of one run: what \<open>creds.refresh\<close> does to a credential, whether the
  client secrets file exists, what the consent flow returns, and whether \<open>build\<close>
  raises.  \<open>AuthError\<close> stands for the exceptions of these library calls.  The pair
  of services is modelled by the credential they are built with.
\<close>

record creds =
  token :: string
  refresh_token :: "string option"
  expired :: bool
  valid :: bool

datatype token_file = Absent | Unreadable | Saved creds

record auth_env =
  refresh :: "creds \<Rightarrow> py_error + creds"
  client_secrets_exists :: bool
  run_local_server :: "py_error + creds"
  build_error :: "py_error option"

definition load_creds :: "token_file \<Rightarrow> creds option" where
  "load_creds tf = (case tf of Absent \<Rightarrow> None | Unreadable \<Rightarrow> None | Saved c \<Rightarrow> Some c)"

definition truthy :: "string option \<Rightarrow> bool" where
  "truthy v = (case v of None \<Rightarrow> False | Some s \<Rightarrow> s \<noteq> [])"

definition build_services :: "auth_env \<Rightarrow> creds \<Rightarrow> py_error + creds" where
  "build_services env c = (case build_error env of None \<Rightarrow> Inr c | Some e \<Rightarrow> Inl e)"

text \<open>
  The first block of the function, up to \<open>if not creds:\<close>: the credential the run
  goes on with, \<open>None\<close> when there is none or the refresh raised.
\<close>

definition after_refresh :: "auth_env \<Rightarrow> creds option \<Rightarrow> creds option" where
  "after_refresh env loaded =
     (case loaded of
        None \<Rightarrow> None
      | Some c \<Rightarrow>
          if valid c then Some c
          else if expired c \<and> truthy (refresh_token c)
          then (case refresh env c of Inl e \<Rightarrow> None | Inr c' \<Rightarrow> Some c')
          else Some c)"

text \<open>The result and the token file after the run.\<close>

definition get_authenticated_services ::
  "auth_env \<Rightarrow> token_file \<Rightarrow> (py_error + creds) \<times> token_file" where
  "get_authenticated_services env tf =
     (case after_refresh env (load_creds tf) of
        Some c \<Rightarrow> (build_services env c, tf)
      | None \<Rightarrow>
          if \<not> client_secrets_exists env then (Inl FileNotFoundError, tf)
          else (case run_local_server env of
                  Inl e \<Rightarrow> (Inl e, tf)
                | Inr c \<Rightarrow> (build_services env c, Saved c)))"


section \<open>Properties of \<open>parse_duration\<close>\<close>

lemma digit_not_space: "is_digit c \<Longrightarrow> \<not> is_space c"
  by (auto simp: is_digit_def is_space_def)

lemma digit_not_sign: "is_digit c \<Longrightarrow> c \<noteq> CHR ''+'' \<and> c \<noteq> CHR ''-'' \<and> c \<noteq> CHR ''_''"
  by (auto simp: is_digit_def)

lemma digit_not_marker:
  "is_digit c \<Longrightarrow> c \<noteq> CHR ''H'' \<and> c \<noteq> CHR ''M'' \<and> c \<noteq> CHR ''S''"
  by (auto simp: is_digit_def)

lemma underscores_single_digits:
  "list_all is_digit ds \<Longrightarrow> underscores_single ds"
  by (induction ds rule: underscores_single.induct) (auto dest: digit_not_sign)

lemma takeWhile_literal_digits:
  "list_all is_digit ds \<Longrightarrow> takeWhile is_literal_char ds = ds"
  by (induction ds) (auto simp: is_literal_char_def)

lemma dropWhile_literal_digits:
  "list_all is_digit ds \<Longrightarrow> dropWhile is_literal_char ds = []"
  by (induction ds) (auto simp: is_literal_char_def)

lemma filter_digits: "list_all is_digit ds \<Longrightarrow> filter is_digit ds = ds"
  by (induction ds) auto

text \<open>On a non-empty run of digits \<open>int\<close> returns its decimal value.\<close>

lemma py_int_decimal:
  assumes "decimal ds"
  shows "py_int ds = Inr (int (dec_value ds))"
proof -
  from assms obtain c cs where ds: "ds = c # cs" and c: "is_digit c" and cs: "list_all is_digit cs"
    by (cases ds) (auto simp: decimal_def)
  have all: "list_all is_digit ds" using ds c cs by simp
  have t: "dropWhile is_space ds = ds" using ds c by (simp add: digit_not_space)
  have last: "last ds \<noteq> CHR ''_''"
    using all ds by (metis digit_not_sign last_in_set list.distinct(1) list_all_iff)
  have ok: "int_body_ok ds"
    using ds c last underscores_single_digits[OF all]
    by (simp add: int_body_ok_def digit_not_sign)
  have u: "(case ds of [] \<Rightarrow> [] | c # r \<Rightarrow> if c = CHR ''+'' \<or> c = CHR ''-'' then r else ds) = ds"
    using ds digit_not_sign[OF c] by simp
  have neg: "(case ds of [] \<Rightarrow> False | c # _ \<Rightarrow> c = CHR ''-'') = False"
    using ds digit_not_sign[OF c] by simp
  show ?thesis
    unfolding py_int_def Let_def t u neg
      takeWhile_literal_digits[OF all] dropWhile_literal_digits[OF all] filter_digits[OF all]
    using ok by simp
qed

lemma py_find_absent: "c \<notin> set xs \<Longrightarrow> py_find c xs = None"
  by (induction xs) auto

lemma py_find_first: "c \<notin> set xs \<Longrightarrow> py_find c (xs @ c # ys) = Some (length xs)"
  by (induction xs) auto

lemma extract_unit_absent: "c \<notin> set t \<Longrightarrow> extract_unit c t = Inr (0, t)"
  by (simp add: extract_unit_def py_find_absent)

lemma extract_unit_present:
  assumes "decimal ds" "c \<notin> set ds"
  shows "extract_unit c (ds @ c # rest) = Inr (int (dec_value ds), rest)"
  using assms by (simp add: extract_unit_def py_find_first py_int_decimal)

lemma extract_unit_error: "extract_unit c t = Inl e \<Longrightarrow> e = ValueError"
  by (auto simp: extract_unit_def py_int_def Let_def split: option.splits sum.splits if_splits)

lemma marker_notin_decimal: "decimal ds \<Longrightarrow> is_marker c \<Longrightarrow> c \<notin> set ds"
  by (auto simp: decimal_def is_marker_def list_all_iff dest: digit_not_marker)

lemma set_unit_text:
  "opt_decimal d \<Longrightarrow> is_marker c \<Longrightarrow> c \<noteq> mk \<Longrightarrow> c \<notin> set (unit_text d mk)"
  by (cases d) (auto simp: unit_text_def opt_decimal_def dest: marker_notin_decimal)

lemma extract_unit_text:
  assumes "opt_decimal d" "is_marker mk" "mk \<notin> set rest"
  shows "extract_unit mk (unit_text d mk @ rest) = Inr (unit_value d, rest)"
proof (cases d)
  case None
  then show ?thesis using assms(3) by (simp add: unit_text_def unit_value_def extract_unit_absent)
next
  case (Some ds)
  with assms(1) have "decimal ds" by (simp add: opt_decimal_def)
  then show ?thesis
    using Some extract_unit_present[of ds mk rest] marker_notin_decimal[OF _ assms(2)]
    by (simp add: unit_text_def unit_value_def)
qed

text \<open>
  The only exception of \<open>parse_duration\<close> is the \<open>ValueError\<close> of \<open>int\<close>, and a string
  with none of the markers \<open>H\<close>, \<open>M\<close>, \<open>S\<close> behind its first two characters gives \<open>0\<close>.
\<close>

lemma parse_duration_value_or_ValueError:
  "(\<exists>n. parse_duration s = Inr n) \<or> parse_duration s = Inl ValueError"
  by (auto simp: parse_duration_def Let_def split: sum.splits dest: extract_unit_error)

lemma parse_duration_no_marker:
  assumes "\<forall>c \<in> set (drop 2 s). \<not> is_marker c"
  shows "parse_duration s = Inr 0"
proof -
  from assms
  have "CHR ''H'' \<notin> set (drop 2 s)" "CHR ''M'' \<notin> set (drop 2 s)" "CHR ''S'' \<notin> set (drop 2 s)"
    by (auto simp: is_marker_def)
  then show ?thesis
    by (simp add: parse_duration_def extract_unit_absent)
qed

text \<open>
  C1 fails on the code.  \<open>P1DT2H3M4S\<close> is a duration in ISO 8601 format, one day, two
  hours, three minutes and four seconds.  \<open>parse_duration\<close> cuts \<open>P1\<close> off, finds \<open>H\<close>
  in \<open>DT2H3M4S\<close> and calls \<open>int\<close> on \<open>DT2\<close>, which raises \<open>ValueError\<close>: the function
  returns no integer, and the day marker does not count as zero.
\<close>

theorem parse_duration_raises:
  "parse_duration ''P1DT2H3M4S'' = Inl ValueError"
  by (simp add: parse_duration_def extract_unit_def py_int_def int_body_ok_def
      is_space_def is_literal_char_def is_digit_def)

text \<open>
  C9.  A string made of a two-character prefix and then optional hour, minute and
  second components in this order, each a decimal number and its marker, is parsed to
  hours * 3600 + minutes * 60 + seconds, a component left out counting as zero.
\<close>

theorem parse_duration_hms:
  assumes "length p = 2" and "opt_decimal h" and "opt_decimal m" and "opt_decimal s"
  shows "parse_duration (p @ unit_text h CHR ''H'' @ unit_text m CHR ''M'' @ unit_text s CHR ''S'')
         = Inr (unit_value h * 3600 + unit_value m * 60 + unit_value s)"
proof -
  have H: "is_marker CHR ''H''" and M: "is_marker CHR ''M''" and S: "is_marker CHR ''S''"
    by (simp_all add: is_marker_def)
  have noH: "CHR ''H'' \<notin> set (unit_text m CHR ''M'' @ unit_text s CHR ''S'')"
    using set_unit_text[OF assms(3) H] set_unit_text[OF assms(4) H] by simp
  have noM: "CHR ''M'' \<notin> set (unit_text s CHR ''S'')"
    using set_unit_text[OF assms(4) M] by simp
  have e1: "extract_unit CHR ''H'' (unit_text h CHR ''H'' @ unit_text m CHR ''M'' @ unit_text s CHR ''S'')
            = Inr (unit_value h, unit_text m CHR ''M'' @ unit_text s CHR ''S'')"
    using extract_unit_text[OF assms(2) H noH] by simp
  have e2: "extract_unit CHR ''M'' (unit_text m CHR ''M'' @ unit_text s CHR ''S'')
            = Inr (unit_value m, unit_text s CHR ''S'')"
    by (rule extract_unit_text[OF assms(3) M noM])
  have e3: "extract_unit CHR ''S'' (unit_text s CHR ''S'') = Inr (unit_value s, [])"
    using extract_unit_text[OF assms(4) S, of "[]"] by simp
  show ?thesis
    using assms(1) by (simp add: parse_duration_def e1 e2 e3)
qed

theorem parse_duration_hms_witness:
  "parse_duration ''PT1H30M15S'' = Inr 5415 \<and> parse_duration ''PT45S'' = Inr 45
   \<and> parse_duration ''PT0S'' = Inr 0"
proof -
  have d: "opt_decimal (Some ''1'')" "opt_decimal (Some ''30'')" "opt_decimal (Some ''15'')"
    "opt_decimal (Some ''45'')" "opt_decimal (Some ''0'')" "opt_decimal None"
    by (simp_all add: opt_decimal_def decimal_def is_digit_def)
  have l: "length ''PT'' = 2" by simp
  have v: "unit_value (Some ''1'') = 1" "unit_value (Some ''30'') = 30" "unit_value (Some ''15'') = 15"
    "unit_value (Some ''45'') = 45" "unit_value (Some ''0'') = 0" "unit_value None = 0"
    by (simp_all add: unit_value_def dec_value_def digit_val_def)
  show ?thesis
    using parse_duration_hms[OF l d(1) d(2) d(3)] parse_duration_hms[OF l d(6) d(6) d(4)]
      parse_duration_hms[OF l d(6) d(6) d(5)]
    by (simp add: v unit_text_def)
qed

section \<open>Properties of \<open>get_annual_views\<close>\<close>

lemma update_fresh: "k \<notin> fst ` set al \<Longrightarrow> AList.update k v al = al @ [(k, v)]"
  by (induction al) auto

lemma annual_loop_append:
  "annual_loop q (xs @ ys) av =
     (case annual_loop q xs av of Inl e \<Rightarrow> Inl e | Inr av' \<Rightarrow> annual_loop q ys av')"
  by (induction xs arbitrary: av) (auto split: outcome.splits sum.splits)

lemma usable_Response:
  "usable (Response r) \<Longrightarrow> \<exists>v n. first_cell r = Inr v \<and> int_of_json v = Inr n \<and> views_of r = Inr n"
  by (auto simp: usable_def views_of_def split: sum.splits)

lemma annual_loop_usable:
  assumes "\<forall>y \<in> set ys. usable (q y)" and "distinct ys" and "set ys \<inter> fst ` set av = {}"
  shows "annual_loop q ys av = Inr (av @ map (\<lambda>y. (y, recorded_views (q y))) ys)"
  using assms
proof (induction ys arbitrary: av)
  case Nil
  then show ?case by simp
next
  case (Cons y ys)
  have fresh: "y \<notin> fst ` set av" using Cons.prems(3) by auto
  have next_ok: "set ys \<inter> fst ` set (av @ [(y, n)]) = {}" for n
    using Cons.prems(2,3) by auto
  have IH: "annual_loop q ys (av @ [(y, n)])
            = Inr ((av @ [(y, n)]) @ map (\<lambda>y. (y, recorded_views (q y))) ys)" for n
    using Cons.IH[OF _ _ next_ok] Cons.prems(1,2) by simp
  show ?case
  proof (cases "q y")
    case HttpError
    then show ?thesis by (simp add: update_fresh[OF fresh] IH recorded_views_def)
  next
    case (Raised e)
    with Cons.prems(1) show ?thesis by (simp add: usable_def)
  next
    case (Response r)
    with Cons.prems(1) have "usable (Response r)" by simp
    then obtain v n where "first_cell r = Inr v" "int_of_json v = Inr n" "views_of r = Inr n"
      using usable_Response by blast
    then show ?thesis
      using Response by (simp add: update_fresh[OF fresh] IH recorded_views_def)
  qed
qed

text \<open>
  C3, as the code has it.  When the call of every year in the range either raises
  \<open>HttpError\<close> or returns a response whose first cell can be read, \<open>get_annual_views\<close>
  returns normally, and the mapping has exactly one entry per year of
  \<open>[start_year, end_year]\<close>, in this order: \<open>0\<close> for a year whose call raised
  \<open>HttpError\<close> and the fetched total for every other year.
\<close>

theorem get_annual_views_isolates_failures:
  assumes "\<forall>year \<in> {start_year..end_year}. usable (youtube_analytics channel_id year)"
  shows "get_annual_views youtube_analytics channel_id start_year end_year
         = Inr (map (\<lambda>year. (year, recorded_views (youtube_analytics channel_id year)))
                  [start_year..end_year])"
  unfolding get_annual_views_def
  using annual_loop_usable[of "[start_year..end_year]" "youtube_analytics channel_id" "[]"] assms
  by simp

theorem get_annual_views_isolates_failures_witness:
  "get_annual_views
     (\<lambda>c year. if year = 2021 then HttpError else Response \<lparr>rows = Some [[JInt (year - 2000)]]\<rparr>)
     ''UC'' 2020 2022 = Inr [(2020, 20), (2021, 0), (2022, 22)]"
proof -
  let ?q = "\<lambda>(c::string) year. if year = (2021::int) then HttpError
            else Response \<lparr>rows = Some [[JInt (year - 2000)]]\<rparr>"
  have ok: "\<forall>year \<in> {2020..2022}. usable (?q ''UC'' year)"
    by (simp add: usable_def views_of_def first_cell_def int_of_json_def)
  have years: "[2020..2022] = [2020, 2021, 2022::int]"
    by (simp add: upto_rec1)
  show ?thesis
    using get_annual_views_isolates_failures[of 2020 2022 ?q "''UC''", OF ok]
    by (simp add: years recorded_views_def views_of_def first_cell_def int_of_json_def)
qed

text \<open>
  C3 as stated fails: with \<open>start_year \<le> end_year\<close>, a call that raises another
  exception than \<open>HttpError\<close>, or that returns an empty list of rows, ends the function
  with that exception, and no mapping is returned.
\<close>

theorem get_annual_views_aborts:
  "get_annual_views
     (\<lambda>c year. if year = 2021 then Raised TimeoutError else Response \<lparr>rows = Some [[JInt 7]]\<rparr>)
     ''UC'' 2020 2022 = Inl TimeoutError
   \<and> get_annual_views
     (\<lambda>c year. if year = 2021 then Response \<lparr>rows = Some []\<rparr> else Response \<lparr>rows = Some [[JInt 7]]\<rparr>)
     ''UC'' 2020 2022 = Inl IndexError"
  by (simp add: get_annual_views_def upto_rec1 first_cell_def int_of_json_def)

text \<open>
  C10.  A response without a \<open>"rows"\<close> key is read as \<open>0\<close>, but a response whose
  \<open>"rows"\<close> is the empty list makes the subscript raise: the function returns no
  mapping, and when the earlier years went through the exception is \<open>IndexError\<close>.
\<close>

theorem get_annual_views_empty_rows:
  assumes "start_year \<le> year" and "year \<le> end_year"
    and "youtube_analytics channel_id year = Response response"
    and "rows response = Some []"
  shows "(\<exists>e. get_annual_views youtube_analytics channel_id start_year end_year = Inl e)
       \<and> ((\<forall>y \<in> {start_year..<year}. usable (youtube_analytics channel_id y))
            \<longrightarrow> get_annual_views youtube_analytics channel_id start_year end_year = Inl IndexError)
       \<and> (\<forall>r. rows r = None \<longrightarrow> views_of r = Inr 0)"
proof -
  let ?q = "youtube_analytics channel_id"
  have split: "[start_year..end_year] = [start_year..year - 1] @ year # [year + 1..end_year]"
    using assms(1,2) by (rule upto_split3)
  have here: "annual_loop ?q (year # ys) av = Inl IndexError" for ys av
    using assms(3,4) by (simp add: first_cell_def)
  have run: "get_annual_views youtube_analytics channel_id start_year end_year =
        (case annual_loop ?q [start_year..year - 1] [] of Inl e \<Rightarrow> Inl e | Inr av' \<Rightarrow> Inl IndexError)"
    unfolding get_annual_views_def split annual_loop_append
    by (simp add: here del: annual_loop.simps split: sum.splits)
  have 1: "\<exists>e. get_annual_views youtube_analytics channel_id start_year end_year = Inl e"
    unfolding run by (simp split: sum.splits)
  have 2: "get_annual_views youtube_analytics channel_id start_year end_year = Inl IndexError"
    if "\<forall>y \<in> {start_year..<year}. usable (?q y)"
  proof -
    have "\<forall>y \<in> set [start_year..year - 1]. usable (?q y)" using that by auto
    from annual_loop_usable[OF this, of "[]"] show ?thesis unfolding run by simp
  qed
  have 3: "\<forall>r. rows r = None \<longrightarrow> views_of r = Inr 0"
    by (simp add: views_of_def first_cell_def int_of_json_def)
  show ?thesis using 1 2 3 by blast
qed

theorem get_annual_views_empty_rows_witness:
  "get_annual_views
     (\<lambda>c year. if year = 2021 then Response \<lparr>rows = Some []\<rparr> else Response \<lparr>rows = None\<rparr>)
     ''UC'' 2020 2022 = Inl IndexError"
proof -
  let ?q = "\<lambda>(c::string) year. if year = (2021::int) then Response \<lparr>rows = Some []\<rparr>
            else Response \<lparr>rows = None\<rparr>"
  have ok: "\<forall>y \<in> {2020..<2021}. usable (?q ''UC'' y)"
    by (simp add: usable_def views_of_def first_cell_def int_of_json_def)
  show ?thesis
    using get_annual_views_empty_rows[of 2020 2021 2022 ?q "''UC''" "\<lparr>rows = Some []\<rparr>"] ok
    by simp
qed

section \<open>Properties of \<open>get_videos_by_year\<close>\<close>

lemma map_of_add_video:
  "map_of (add_video item d) y =
     (if y = take 4 (publishedAt item)
      then Some ((case map_of d y of None \<Rightarrow> [] | Some bucket \<Rightarrow> bucket) @ [videoId item])
      else map_of d y)"
  by (simp add: add_video_def Let_def update_conv' split: option.splits)

lemma year_ids_Cons:
  "year_ids y (item # its) =
     (if take 4 (publishedAt item) = y then videoId item # year_ids y its else year_ids y its)"
  by (simp add: year_ids_def)

lemma map_of_fold_add_video:
  "map_of (fold add_video its d) y =
     (case map_of d y of
        None \<Rightarrow> if year_ids y its = [] then None else Some (year_ids y its)
      | Some bucket \<Rightarrow> Some (bucket @ year_ids y its))"
proof (induction its arbitrary: d)
  case Nil
  then show ?case by (simp add: year_ids_def split: option.splits)
next
  case (Cons item its)
  show ?case
    by (simp add: Cons.IH map_of_add_video year_ids_Cons split: option.splits)
qed

lemma buckets_from_empty:
  "map_of (fold add_video its []) y = (if year_ids y its = [] then None else Some (year_ids y its))"
  by (simp add: map_of_fold_add_video)

lemma all_items_Cons: "all_items (p # ps) = items_of p @ all_items ps"
  by (simp add: all_items_def)

lemma cursor_after_last: "ps \<noteq> [] \<Longrightarrow> cursor_after tok ps = next_token (last ps)"
  by (induction ps arbitrary: tok) auto

lemma fetch_pages_chain:
  assumes "chain f tok ps" and "ps \<noteq> [] \<longrightarrow> next_token (last ps) \<noteq> None"
  shows "fetch_pages f tok acc = fetch_pages f (cursor_after tok ps) (fold add_video (all_items ps) acc)"
  using assms
proof (induction ps arbitrary: tok acc)
  case Nil
  then show ?case by (simp add: all_items_def)
next
  case (Cons p ps)
  from Cons.prems(1) have call: "f tok = Response p" by simp
  show ?case
  proof (cases "next_token p")
    case None
    with Cons.prems show ?thesis by (cases ps) auto
  next
    case (Some t)
    with Cons.prems(1) have rest: "chain f (Some t) ps" by simp
    have last: "ps \<noteq> [] \<longrightarrow> next_token (last ps) \<noteq> None" using Cons.prems(2) by auto
    have "fetch_pages f tok acc = fetch_pages f (Some t) (fold add_video (items_of p) acc)"
      by (subst fetch_pages.simps) (simp add: call Some)
    also have "\<dots> = fetch_pages f (cursor_after (Some t) ps)
                      (fold add_video (all_items ps) (fold add_video (items_of p) acc))"
      by (rule Cons.IH[OF rest last])
    finally show ?thesis by (simp add: Some all_items_Cons)
  qed
qed

lemma fetch_pages_failure:
  "f tok = HttpError \<Longrightarrow> fetch_pages f tok acc = Some (Inr acc)"
  by (subst fetch_pages.simps) simp

lemma fetch_pages_last:
  "f tok = Response p \<Longrightarrow> next_token p = None \<Longrightarrow>
   fetch_pages f tok acc = Some (Inr (fold add_video (items_of p) acc))"
  by (subst fetch_pages.simps) simp

lemma fetch_pages_raised:
  "f tok = Raised e \<Longrightarrow> fetch_pages f tok acc = Some (Inl e)"
  by (subst fetch_pages.simps) simp

lemma chain_append:
  "chain f tok (ps @ [p]) \<Longrightarrow>
   chain f tok ps \<and> (ps \<noteq> [] \<longrightarrow> next_token (last ps) \<noteq> None) \<and> f (cursor_after tok ps) = Response p"
proof (induction ps arbitrary: tok)
  case Nil
  then show ?case by simp
next
  case (Cons q qs)
  then show ?case by (cases "next_token q") (auto split: if_splits)
qed

lemma all_items_snoc: "all_items (ps @ [p]) = all_items ps @ items_of p"
  by (simp add: all_items_def)

text \<open>The run of the loop over a listing that ends, by a failure or by a last page.\<close>

lemma fetch_pages_result:
  assumes "chain f None pages"
    and "f (cursor_after None pages) = HttpError \<or> (pages \<noteq> [] \<and> next_token (last pages) = None)"
  shows "fetch_pages f None [] = Some (Inr (fold add_video (all_items pages) []))"
  using assms(2)
proof
  assume fail: "f (cursor_after None pages) = HttpError"
  have "pages \<noteq> [] \<longrightarrow> next_token (last pages) \<noteq> None"
  proof (intro impI notI)
    assume ne: "pages \<noteq> []" and "next_token (last pages) = None"
    then have "cursor_after None pages = None" by (simp add: cursor_after_last)
    moreover from ne assms(1) obtain p where "f None = Response p" by (cases pages) auto
    ultimately show False using fail by simp
  qed
  from fetch_pages_chain[OF assms(1) this] fail show ?thesis
    by (simp add: fetch_pages_failure)
next
  assume "pages \<noteq> [] \<and> next_token (last pages) = None"
  then obtain ps p where pages: "pages = ps @ [p]" and stop: "next_token p = None"
    by (metis append_butlast_last_id)
  from chain_append[OF assms(1)[unfolded pages]]
  have c: "chain f None ps" and l: "ps \<noteq> [] \<longrightarrow> next_token (last ps) \<noteq> None"
    and call: "f (cursor_after None ps) = Response p"
    by auto
  show ?thesis
    using fetch_pages_chain[OF c l, of "[]"]
      fetch_pages_last[of f "cursor_after None ps" p "fold add_video (all_items ps) []", OF call stop]
    by (simp add: pages all_items_snoc)
qed

text \<open>
  C7, as the code has it.  Let the calls be answered by \<open>pages\<close>, page after page along
  the cursors.  When the call that follows them raises \<open>HttpError\<close>, or when the last of
  them names no further page, \<open>get_videos_by_year\<close> returns, with no exception reaching
  the caller, the mapping built from the items of exactly these pages, taken in page
  order; every bucket lists its identifiers in that order.
\<close>

theorem get_videos_by_year_partial_result:
  assumes "chain (youtube uploads_playlist_id) None pages"
    and "youtube uploads_playlist_id (cursor_after None pages) = HttpError
         \<or> (pages \<noteq> [] \<and> next_token (last pages) = None)"
  shows "\<exists>videos_by_year.
           get_videos_by_year youtube uploads_playlist_id = Some (Inr videos_by_year)
         \<and> videos_by_year = fold add_video (all_items pages) []
         \<and> (\<forall>y bucket. map_of videos_by_year y = Some bucket
               \<longrightarrow> bucket = year_ids y (all_items pages))"
  using fetch_pages_result[OF assms]
  by (auto simp: get_videos_by_year_def buckets_from_empty split: if_splits)

theorem get_videos_by_year_partial_result_witness:
  "get_videos_by_year
     (\<lambda>pid tok.
        if tok = None then Response \<lparr>page_items = Some
             [\<lparr>videoId = ''a'', publishedAt = ''2022-07-01T10:00:00Z''\<rparr>,
              \<lparr>videoId = ''b'', publishedAt = ''2021-03-05T08:30:00Z''\<rparr>],
             nextPageToken = Some ''t1''\<rparr>
        else if tok = Some ''t1'' then Response \<lparr>page_items = Some
             [\<lparr>videoId = ''c'', publishedAt = ''2022-01-09T12:00:00Z''\<rparr>],
             nextPageToken = Some ''t2''\<rparr>
        else HttpError)
     ''UU'' = Some (Inr [(''2022'', [''a'', ''c'']), (''2021'', [''b''])])"
proof -
  let ?p1 = "\<lparr>page_items = Some
             [\<lparr>videoId = ''a'', publishedAt = ''2022-07-01T10:00:00Z''\<rparr>,
              \<lparr>videoId = ''b'', publishedAt = ''2021-03-05T08:30:00Z''\<rparr>],
             nextPageToken = Some ''t1''\<rparr>"
  let ?p2 = "\<lparr>page_items = Some
             [\<lparr>videoId = ''c'', publishedAt = ''2022-01-09T12:00:00Z''\<rparr>],
             nextPageToken = Some ''t2''\<rparr>"
  let ?yt = "\<lambda>(pid::string) tok. if tok = None then Response ?p1
             else if tok = Some ''t1'' then Response ?p2 else HttpError"
  have c: "chain (?yt ''UU'') None [?p1, ?p2]"
    by (simp add: next_token_def)
  have e: "?yt ''UU'' (cursor_after None [?p1, ?p2]) = HttpError
           \<or> ([?p1, ?p2] \<noteq> [] \<and> next_token (last [?p1, ?p2]) = None)"
    by (simp add: next_token_def)
  show ?thesis
    using get_videos_by_year_partial_result[of ?yt "''UU''" "[?p1, ?p2]", OF c e]
    by (simp add: all_items_def items_of_def add_video_def)
qed

text \<open>
  C7 as stated fails for a call that fails with another exception than \<open>HttpError\<close>:
  the second call of this listing raises \<open>TimeoutError\<close>, which reaches the caller, and
  the items of the first page are not returned.
\<close>

theorem get_videos_by_year_propagates:
  "get_videos_by_year
     (\<lambda>pid tok.
        if tok = None then Response \<lparr>page_items = Some
             [\<lparr>videoId = ''a'', publishedAt = ''2022-07-01T10:00:00Z''\<rparr>],
             nextPageToken = Some ''t1''\<rparr>
        else Raised TimeoutError)
     ''UU'' = Some (Inl TimeoutError)"
proof -
  let ?p1 = "\<lparr>page_items = Some [\<lparr>videoId = ''a'', publishedAt = ''2022-07-01T10:00:00Z''\<rparr>],
             nextPageToken = Some ''t1''\<rparr>"
  let ?f = "\<lambda>tok. if tok = None then Response ?p1 else Raised TimeoutError"
  have c: "chain ?f None [?p1]" by (simp add: next_token_def)
  have l: "[?p1] \<noteq> [] \<longrightarrow> next_token (last [?p1]) \<noteq> None" by (simp add: next_token_def)
  have r: "?f (cursor_after None [?p1]) = Raised TimeoutError" by (simp add: next_token_def)
  show ?thesis
    unfolding get_videos_by_year_def
    using fetch_pages_chain[OF c l, of "[]"]
      fetch_pages_raised[of ?f "cursor_after None [?p1]" TimeoutError
        "fold add_video (all_items [?p1]) []", OF r]
    by simp
qed

text \<open>
  C6.  In the mapping \<open>get_videos_by_year\<close> returns, the bucket of a year holds the
  identifiers of the items whose \<open>publishedAt\<close> starts with these four characters, and
  no bucket exists for a year without such an item.  So every listed video is in the
  bucket named by the first four characters of its timestamp, and (the listing naming
  each video once) in no other.
\<close>

theorem get_videos_by_year_buckets:
  assumes "chain (youtube uploads_playlist_id) None pages"
    and "youtube uploads_playlist_id (cursor_after None pages) = HttpError
         \<or> (pages \<noteq> [] \<and> next_token (last pages) = None)"
  shows "\<exists>videos_by_year.
           get_videos_by_year youtube uploads_playlist_id = Some (Inr videos_by_year)
         \<and> (\<forall>y. map_of videos_by_year y =
                (if year_ids y (all_items pages) = [] then None
                 else Some (year_ids y (all_items pages))))
         \<and> (distinct (map videoId (all_items pages)) \<longrightarrow>
              (\<forall>item \<in> set (all_items pages). \<forall>y.
                 (\<exists>bucket. map_of videos_by_year y = Some bucket \<and> videoId item \<in> set bucket)
                 \<longleftrightarrow> y = take 4 (publishedAt item)))"
proof -
  let ?its = "all_items pages"
  let ?R = "fold add_video ?its []"
  have run: "get_videos_by_year youtube uploads_playlist_id = Some (Inr ?R)"
    using fetch_pages_result[OF assms] by (simp add: get_videos_by_year_def)
  have buckets: "map_of ?R y = (if year_ids y ?its = [] then None else Some (year_ids y ?its))" for y
    by (rule buckets_from_empty)
  have one: "(\<exists>bucket. map_of ?R y = Some bucket \<and> videoId item \<in> set bucket)
             \<longleftrightarrow> y = take 4 (publishedAt item)"
    if d: "distinct (map videoId ?its)" and i: "item \<in> set ?its" for item y
  proof -
    have "videoId item \<in> set (year_ids y ?its) \<longleftrightarrow> y = take 4 (publishedAt item)"
    proof
      assume "videoId item \<in> set (year_ids y ?its)"
      then obtain it where it: "it \<in> set ?its" "take 4 (publishedAt it) = y" "videoId it = videoId item"
        by (auto simp: year_ids_def)
      with d i have "it = item" by (meson distinct_map inj_onD)
      with it show "y = take 4 (publishedAt item)" by simp
    next
      assume "y = take 4 (publishedAt item)"
      with i show "videoId item \<in> set (year_ids y ?its)" by (auto simp: year_ids_def)
    qed
    then show ?thesis unfolding buckets by auto
  qed
  show ?thesis using run buckets one by blast
qed


theorem get_videos_by_year_buckets_witness:
  "\<exists>videos_by_year.
     get_videos_by_year
       (\<lambda>pid tok. Response \<lparr>page_items = Some
             [\<lparr>videoId = ''v1'', publishedAt = ''2022-07-01T10:00:00Z''\<rparr>,
              \<lparr>videoId = ''v2'', publishedAt = ''2021-03-05T08:30:00Z''\<rparr>],
             nextPageToken = None\<rparr>)
       ''UU'' = Some (Inr videos_by_year)
   \<and> map_of videos_by_year ''2022'' = Some [''v1'']
   \<and> map_of videos_by_year ''2021'' = Some [''v2'']
   \<and> map_of videos_by_year ''2023'' = None"
proof -
  let ?p = "\<lparr>page_items = Some
             [\<lparr>videoId = ''v1'', publishedAt = ''2022-07-01T10:00:00Z''\<rparr>,
              \<lparr>videoId = ''v2'', publishedAt = ''2021-03-05T08:30:00Z''\<rparr>],
             nextPageToken = None\<rparr>"
  let ?yt = "\<lambda>(pid::string) (tok::string option). Response ?p"
  have c: "chain (?yt ''UU'') None [?p]"
    by (simp add: next_token_def)
  have e: "?yt ''UU'' (cursor_after None [?p]) = HttpError
           \<or> ([?p] \<noteq> [] \<and> next_token (last [?p]) = None)"
    by (simp add: next_token_def)
  have y: "year_ids ''2022'' (all_items [?p]) = [''v1'']"
    "year_ids ''2021'' (all_items [?p]) = [''v2'']"
    "year_ids ''2023'' (all_items [?p]) = []"
    by (simp_all add: year_ids_def all_items_def items_of_def)
  from get_videos_by_year_buckets[of ?yt "''UU''" "[?p]", OF c e]
  obtain R where R: "get_videos_by_year ?yt ''UU'' = Some (Inr R)"
    and b: "\<forall>y. map_of R y = (if year_ids y (all_items [?p]) = [] then None
                 else Some (year_ids y (all_items [?p])))"
    by blast
  have "map_of R ''2022'' = Some [''v1'']" "map_of R ''2021'' = Some [''v2'']"
    "map_of R ''2023'' = None"
    using b y by simp_all
  with R show ?thesis by blast
qed

section \<open>Properties of \<open>get_video_stats\<close>\<close>

lemma concat_batches_from: "concat (batches_from i xs) = drop i xs"
proof (induction i xs rule: batches_from.induct)
  case (1 i xs)
  show ?case
  proof (cases "i < length xs")
    case True
    have split: "take 50 (drop i xs) @ drop (i + 50) xs = drop i xs"
      using append_take_drop_id[of 50 "drop i xs"] by (simp add: add.commute)
    have "batches_from i xs = take 50 (drop i xs) # batches_from (i + 50) xs"
      using True by (subst batches_from.simps) simp
    then have "concat (batches_from i xs) = take 50 (drop i xs) @ drop (i + 50) xs"
      using "1.IH"[OF True] by simp
    then show ?thesis using split by simp
  next
    case False
    then show ?thesis by (subst batches_from.simps) simp
  qed
qed

lemma batches_from_sizes:
  "b \<in> set (batches_from i xs) \<Longrightarrow> b \<noteq> [] \<and> length b \<le> 50"
proof (induction i xs rule: batches_from.induct)
  case (1 i xs)
  show ?case
  proof (cases "i < length xs")
    case True
    with "1.prems" have "b = take 50 (drop i xs) \<or> b \<in> set (batches_from (i + 50) xs)"
      by (subst (asm) batches_from.simps) simp
    then show ?thesis using True "1.IH" by auto
  next
    case False
    with "1.prems" show ?thesis by (subst (asm) batches_from.simps) simp
  qed
qed

lemma batches_from_nonempty: "xs \<noteq> [] \<Longrightarrow> batches_from 0 xs \<noteq> []"
  by (subst batches_from.simps) simp

lemma batches_disjoint:
  assumes "distinct xs" and "b \<in> set (batches_from 0 xs)" and "b' \<in> set (batches_from 0 xs)"
    and "b \<noteq> b'"
  shows "set b \<inter> set b' = {}"
proof -
  have "distinct (concat (batches_from 0 xs))" using assms(1) by (simp add: concat_batches_from)
  then show ?thesis using assms(2-4) by (auto simp: distinct_concat_iff)
qed

lemma set_batches_subset: "b \<in> set (batches_from 0 xs) \<Longrightarrow> set b \<subseteq> set xs"
proof -
  assume "b \<in> set (batches_from 0 xs)"
  then have "set b \<subseteq> set (concat (batches_from 0 xs))" by auto
  then show ?thesis by (simp add: concat_batches_from)
qed

lemma batches_from_distinct: "distinct xs \<Longrightarrow> distinct (batches_from 0 xs)"
proof -
  assume "distinct xs"
  then have "distinct (concat (batches_from 0 xs))" by (simp add: concat_batches_from)
  then have "distinct (removeAll [] (batches_from 0 xs))" by (simp add: distinct_concat_iff)
  moreover have "[] \<notin> set (batches_from 0 xs)" using batches_from_sizes by blast
  ultimately show ?thesis by simp
qed

lemma process_items_append:
  "process_items (xs @ ys) stats =
     (case process_items xs stats of Inl e \<Rightarrow> Inl e | Inr stats' \<Rightarrow> process_items ys stats')"
  by (induction xs arbitrary: stats) (auto split: sum.splits)

lemma process_items_convertible:
  "list_all convertible items \<Longrightarrow>
   \<exists>stats'. process_items items stats = Inr stats'
     \<and> fst ` set stats' = fst ` set stats \<union> item_id ` set items"
proof (induction items arbitrary: stats)
  case Nil
  then show ?case by simp
next
  case (Cons item items)
  then obtain v where v: "video_of_item item = Inr v"
    by (auto simp: convertible_def split: sum.splits)
  from Cons have "list_all convertible items" by simp
  from Cons.IH[OF this, of "AList.update (item_id item) v stats"]
  show ?case by (auto simp: v dom_update)
qed

lemma answered_items_Cons: "answered_items (out # outs) = items_in out @ answered_items outs"
  by (simp add: answered_items_def)

lemma acceptable_items: "acceptable out \<Longrightarrow> list_all convertible (items_in out)"
  by (cases out) (simp_all add: acceptable_def items_in_def)

lemma acceptable_answered_items:
  "list_all acceptable outs \<Longrightarrow> list_all convertible (answered_items outs)"
  by (induction outs) (simp_all add: answered_items_def acceptable_items)

lemma feed_length: "feed api requests w = (outs, w') \<Longrightarrow> length outs = length requests"
  by (induction requests arbitrary: w outs) (auto split: prod.splits)

text \<open>
  The loop and the platform: when the platform, receiving the request of every batch
  once and in order, gives acceptable outcomes, the loop leaves the platform in the
  same state and returns what the conversion of the answered items gives.
\<close>

lemma run_batches_feed:
  assumes "feed api (map join_ids bs) w = (outs, w')" and "list_all acceptable outs"
  shows "run_batches api bs stats w = (process_items (answered_items outs) stats, w')"
  using assms
proof (induction bs arbitrary: stats w outs w')
  case Nil
  then show ?case by (simp add: answered_items_def)
next
  case (Cons b bs)
  obtain out w1 where call: "api (join_ids b) w = (out, w1)" by (cases "api (join_ids b) w")
  obtain outs1 w2 where rest: "feed api (map join_ids bs) w1 = (outs1, w2)"
    by (cases "feed api (map join_ids bs) w1")
  from Cons.prems(1) call rest have outs: "outs = out # outs1" and w': "w' = w2" by auto
  from Cons.prems(2) outs have ok: "acceptable out" and oks: "list_all acceptable outs1" by auto
  have IH: "run_batches api bs st w1 = (process_items (answered_items outs1) st, w')" for st
    using Cons.IH[OF rest oks] w' by simp
  show ?case
  proof (cases out)
    case HttpError
    then show ?thesis
      using call IH by (simp add: outs answered_items_Cons items_in_def)
  next
    case (Raised e)
    with ok show ?thesis by (simp add: acceptable_def)
  next
    case (Response r)
    from acceptable_items[OF ok] Response have "list_all convertible (vitems_of r)"
      by (simp add: items_in_def)
    from process_items_convertible[OF this, of stats]
    obtain s1 where s1: "process_items (vitems_of r) stats = Inr s1" by blast
    show ?thesis
      using call Response s1 IH
      by (simp add: outs answered_items_Cons items_in_def process_items_append)
  qed
qed

lemma own_ids_subset:
  assumes "own_ids batches outs" and "length outs = length batches"
  shows "item_id ` set (answered_items outs) \<subseteq> \<Union> (set ` set batches)"
proof
  fix x assume "x \<in> item_id ` set (answered_items outs)"
  then obtain out item where out: "out \<in> set outs" and item: "item \<in> set (items_in out)"
    and x: "x = item_id item"
    by (auto simp: answered_items_def)
  from out obtain i where i: "i < length outs" and oi: "outs ! i = out"
    by (auto simp: in_set_conv_nth)
  with assms(2) have "(batches ! i, out) \<in> set (zip batches outs)"
    by (auto simp: in_set_zip)
  with assms(1) item have "item_id item \<in> set (batches ! i)"
    by (auto simp: own_ids_def list_all_iff)
  with i assms(2) x show "x \<in> \<Union> (set ` set batches)" by auto
qed

text \<open>
  C4, as the code has it.  \<open>get_video_stats\<close> cuts \<open>video_ids\<close> into consecutive batches,
  none empty and none longer than 50, whose concatenation is the list.  When the
  platform, asked for every batch once and in order, answers each request with an
  \<open>HttpError\<close> or with items the function can convert, the function returns a mapping
  and leaves the platform in the state these requests lead to: it has issued exactly
  one detail call per batch, in order.  The keys of the mapping are the identifiers of
  the returned items; they are among \<open>video_ids\<close> when every batch is answered with
  items of that batch.
\<close>

theorem get_video_stats_batches:
  assumes "feed youtube (map join_ids (batches_from 0 video_ids)) w = (outs, w')"
    and "list_all acceptable outs"
  shows "concat (batches_from 0 video_ids) = video_ids
       \<and> (\<forall>batch \<in> set (batches_from 0 video_ids). batch \<noteq> [] \<and> length batch \<le> 50)
       \<and> (\<exists>stats. get_video_stats youtube video_ids w = (Inr stats, w')
             \<and> fst ` set stats = item_id ` set (answered_items outs)
             \<and> (own_ids (batches_from 0 video_ids) outs \<longrightarrow> fst ` set stats \<subseteq> set video_ids))"
proof -
  let ?bs = "batches_from 0 video_ids"
  have part: "concat ?bs = video_ids" by (simp add: concat_batches_from)
  have sizes: "\<forall>batch \<in> set ?bs. batch \<noteq> [] \<and> length batch \<le> 50"
    using batches_from_sizes by blast
  from process_items_convertible[OF acceptable_answered_items[OF assms(2)], of "[]"]
  obtain stats where conv: "process_items (answered_items outs) [] = Inr stats"
    and keys: "fst ` set stats = item_id ` set (answered_items outs)"
    by auto
  have run: "get_video_stats youtube video_ids w = (Inr stats, w')"
    using run_batches_feed[OF assms, of "[]"] conv by (simp add: get_video_stats_def)
  have len: "length outs = length ?bs" using feed_length[OF assms(1)] by simp
  have sub: "fst ` set stats \<subseteq> set video_ids" if "own_ids ?bs outs"
  proof -
    have "item_id ` set (answered_items outs) \<subseteq> \<Union> (set ` set ?bs)"
      by (rule own_ids_subset[OF that len])
    also have "\<dots> = set (concat ?bs)" by simp
    finally show ?thesis unfolding keys part .
  qed
  show ?thesis using part sizes run keys sub by blast
qed

theorem get_video_stats_batches_witness:
  "\<exists>stats.
     get_video_stats
       (recording (\<lambda>request. if request = ''v2'' then answer_with [item_with ''v2'' ''PT45S'']
                              else answer_with [item_with ''v0'' ''PT1H30M15S'']))
       fifty_one_ids []
     = (Inr stats, [join_ids first_fifty, ''v2''])
   \<and> fst ` set stats = {''v0'', ''v2''}
   \<and> fst ` set stats \<subseteq> set fifty_one_ids"
proof -
  let ?answer = "\<lambda>request. if request = ''v2'' then answer_with [item_with ''v2'' ''PT45S'']
                              else answer_with [item_with ''v0'' ''PT1H30M15S'']"
  let ?outs = "[answer_with [item_with ''v0'' ''PT1H30M15S''], answer_with [item_with ''v2'' ''PT45S'']]"
  have f: "feed (recording ?answer) (map join_ids (batches_from 0 fifty_one_ids)) []
           = (?outs, [join_ids first_fifty, ''v2''])"
    by code_simp
  have ok: "list_all acceptable ?outs"
    by code_simp
  have own: "own_ids (batches_from 0 fifty_one_ids) ?outs"
    by code_simp
  have ids: "item_id ` set (answered_items ?outs) = {''v0'', ''v2''}"
    by (simp add: answered_items_def items_in_def answer_with_def vitems_of_def item_with_def)
  from get_video_stats_batches[OF f ok]
  obtain stats where run: "get_video_stats (recording ?answer) fifty_one_ids []
        = (Inr stats, [join_ids first_fifty, ''v2''])"
    and keys: "fst ` set stats = item_id ` set (answered_items ?outs)"
    and sub: "own_ids (batches_from 0 fifty_one_ids) ?outs \<longrightarrow> fst ` set stats \<subseteq> set fifty_one_ids"
    by blast
  have 2: "fst ` set stats = {''v0'', ''v2''}" using keys ids by simp
  have 3: "fst ` set stats \<subseteq> set fifty_one_ids" using sub own by (rule mp)
  from run 2 3 show ?thesis by blast
qed

text \<open>
  C4 as stated fails in two ways.  The keys are the identifiers the platform returns,
  whatever they are: \<open>zzz\<close> is a key and not an input.  And a returned item whose
  duration \<open>parse_duration\<close> rejects ends the function with \<open>ValueError\<close> in the first
  batch: the platform has received one request and the second batch is never
  requested.
\<close>

theorem get_video_stats_foreign_key_and_abort:
  "get_video_stats (recording (\<lambda>request. answer_with [item_with ''zzz'' ''PT45S'']))
     [''a'', ''b''] []
   = (Inr [(''zzz'', \<lparr>title = ''t'', views = 12, likes = 3, comments = 0, duration = 45,
                      published_at = ''2022-07-01T10:00:00Z'', thumbnail = []\<rparr>)],
      [''a,b''])
   \<and> get_video_stats (recording (\<lambda>request. answer_with [item_with ''v0'' ''P1DT2H3M4S'']))
     fifty_one_ids []
   = (Inl ValueError, [join_ids first_fifty])"
  by code_simp

text \<open>
  C8, as the code has it.  Under the same condition (every request ends in an
  \<open>HttpError\<close> or in items the function can convert) the function calls the platform
  for every batch, whichever calls raise \<open>HttpError\<close>, and returns exactly the mapping
  that the conversion of the answered batches' items gives: a batch whose call raised
  \<open>HttpError\<close> adds nothing and removes nothing.  When batches are answered with their
  own items and the identifiers are distinct, no identifier of such a batch is a key.
\<close>

theorem get_video_stats_isolates_failures:
  assumes "feed youtube (map join_ids (batches_from 0 video_ids)) w = (outs, w')"
    and "list_all acceptable outs"
  shows "get_video_stats youtube video_ids w = (process_items (answered_items outs) [], w')
       \<and> (\<exists>stats. process_items (answered_items outs) [] = Inr stats
             \<and> fst ` set stats = item_id ` set (answered_items outs)
             \<and> (own_ids (batches_from 0 video_ids) outs \<and> distinct video_ids \<longrightarrow>
                  (\<forall>(batch, out) \<in> set (zip (batches_from 0 video_ids) outs).
                     out = HttpError \<longrightarrow> set batch \<inter> fst ` set stats = {})))"
proof -
  let ?bs = "batches_from 0 video_ids"
  from process_items_convertible[OF acceptable_answered_items[OF assms(2)], of "[]"]
  obtain stats where conv: "process_items (answered_items outs) [] = Inr stats"
    and keys: "fst ` set stats = item_id ` set (answered_items outs)"
    by auto
  have run: "get_video_stats youtube video_ids w = (process_items (answered_items outs) [], w')"
    using run_batches_feed[OF assms, of "[]"] by (simp add: get_video_stats_def)
  have len: "length outs = length ?bs" using feed_length[OF assms(1)] by simp
  have absent: "set batch \<inter> fst ` set stats = {}"
    if own: "own_ids ?bs outs" and d: "distinct video_ids"
      and z: "(batch, out) \<in> set (zip ?bs outs)" and f: "out = HttpError"
    for batch out
  proof (rule ccontr)
    assume "set batch \<inter> fst ` set stats \<noteq> {}"
    then obtain x where xb: "x \<in> set batch" and xk: "x \<in> item_id ` set (answered_items outs)"
      unfolding keys by blast
    from z obtain i where i: "i < length ?bs" and bi: "?bs ! i = batch" and oi: "outs ! i = out"
      by (auto simp: in_set_zip)
    from xk obtain out' item where out': "out' \<in> set outs" and item: "item \<in> set (items_in out')"
      and x: "x = item_id item"
      by (auto simp: answered_items_def)
    from out' obtain j where j: "j < length outs" and oj: "outs ! j = out'"
      by (auto simp: in_set_conv_nth)
    from j len have "(?bs ! j, out') \<in> set (zip ?bs outs)"
      using oj by (auto simp: in_set_zip)
    with own item x have xj: "x \<in> set (?bs ! j)"
      by (auto simp: own_ids_def list_all_iff)
    have "i \<noteq> j" using item oi oj f by (auto simp: items_in_def)
    moreover have "distinct ?bs" by (rule batches_from_distinct[OF d])
    ultimately have ne: "?bs ! i \<noteq> ?bs ! j" using i j len by (simp add: nth_eq_iff_index_eq)
    have "?bs ! i \<in> set ?bs" "?bs ! j \<in> set ?bs" using i j len by simp_all
    from batches_disjoint[OF d this ne] xb xj bi show False by auto
  qed
  show ?thesis using run conv keys absent by blast
qed



theorem get_video_stats_isolates_failures_witness:
  "\<exists>stats.
     get_video_stats
       (recording (\<lambda>request. if request = ''v2'' then answer_with [item_with ''v2'' ''PT45S'']
                              else HttpError))
       fifty_one_ids []
     = (Inr stats, [join_ids first_fifty, ''v2''])
   \<and> fst ` set stats = {''v2''}
   \<and> set first_fifty \<inter> fst ` set stats = {}"
proof -
  let ?answer = "\<lambda>request. if request = ''v2'' then answer_with [item_with ''v2'' ''PT45S'']
                              else HttpError"
  let ?outs = "[HttpError, answer_with [item_with ''v2'' ''PT45S'']]"
  have b: "batches_from 0 fifty_one_ids = [first_fifty, [''v2'']]"
    by code_simp
  have f: "feed (recording ?answer) (map join_ids (batches_from 0 fifty_one_ids)) []
           = (?outs, [join_ids first_fifty, ''v2''])"
    by code_simp
  have ok: "list_all acceptable ?outs"
    by code_simp
  have own: "own_ids (batches_from 0 fifty_one_ids) ?outs"
    by code_simp
  have d: "distinct fifty_one_ids"
    by code_simp
  have ids: "item_id ` set (answered_items ?outs) = {''v2''}"
    by (simp add: answered_items_def items_in_def answer_with_def vitems_of_def item_with_def)
  from get_video_stats_isolates_failures[OF f ok]
  obtain stats where run: "get_video_stats (recording ?answer) fifty_one_ids []
        = (process_items (answered_items ?outs) [], [join_ids first_fifty, ''v2''])"
    and conv: "process_items (answered_items ?outs) [] = Inr stats"
    and keys: "fst ` set stats = item_id ` set (answered_items ?outs)"
    and absent: "own_ids (batches_from 0 fifty_one_ids) ?outs \<and> distinct fifty_one_ids \<longrightarrow>
                  (\<forall>(batch, out) \<in> set (zip (batches_from 0 fifty_one_ids) ?outs).
                     out = HttpError \<longrightarrow> set batch \<inter> fst ` set stats = {})"
    by blast
  have 1: "get_video_stats (recording ?answer) fifty_one_ids []
           = (Inr stats, [join_ids first_fifty, ''v2''])"
    using run conv by simp
  have 2: "fst ` set stats = {''v2''}" using keys ids by simp
  have 3: "set first_fifty \<inter> fst ` set stats = {}"
    using absent own d unfolding b by simp
  from 1 2 3 show ?thesis by blast
qed

text \<open>
  C8 as stated fails when a batch fails otherwise than by an \<open>HttpError\<close> of its call.
  The first batch is answered and converted; the second is answered with a duration
  \<open>parse_duration\<close> rejects, or its call raises \<open>TimeoutError\<close>: the whole fetch ends
  with the exception and the entry of the first batch is lost with it.
\<close>

theorem get_video_stats_aborts:
  "get_video_stats
     (recording (\<lambda>request. if request = ''v2'' then answer_with [item_with ''v2'' ''P1DT2H3M4S'']
                            else answer_with [item_with ''v0'' ''PT45S'']))
     fifty_one_ids []
   = (Inl ValueError, [join_ids first_fifty, ''v2''])
   \<and> get_video_stats
     (recording (\<lambda>request. if request = ''v2'' then Raised TimeoutError
                            else answer_with [item_with ''v0'' ''PT45S'']))
     fifty_one_ids []
   = (Inl TimeoutError, [join_ids first_fifty, ''v2''])"
  by code_simp

section \<open>Properties of \<open>get_top_videos\<close>\<close>






section \<open>Properties of \<open>get_authenticated_services\<close>\<close>

text \<open>
  The two ways to a new credential.  After the consent flow the token file holds the new
  credential; after a refresh the token file is what it was.
\<close>

lemma consent_flow_writes_token_file:
  assumes "after_refresh env (load_creds tf) = None" and "client_secrets_exists env"
    and "run_local_server env = Inr c"
  shows "get_authenticated_services env tf = (build_services env c, Saved c)"
  using assms by (simp add: get_authenticated_services_def)

lemma refresh_keeps_token_file:
  assumes "tf = Saved c" and "\<not> valid c" and "expired c" and "truthy (refresh_token c)"
    and "refresh env c = Inr c'"
  shows "get_authenticated_services env tf = (build_services env c', tf)"
  using assms by (simp add: get_authenticated_services_def after_refresh_def load_creds_def)

text \<open>
  C2 fails on the refresh path.  The token file holds an expired credential with a
  refresh token and the refresh succeeds: the services are built with the refreshed
  credential, and the token file still holds the old one.
\<close>

theorem refreshed_credential_not_persisted:
  "get_authenticated_services
     \<lparr>refresh = (\<lambda>c. Inr (c\<lparr>token := ''new'', expired := False, valid := True\<rparr>)),
      client_secrets_exists = True,
      run_local_server = Inl AuthError,
      build_error = None\<rparr>
     (Saved \<lparr>token = ''old'', refresh_token = Some ''r'', expired = True, valid = False\<rparr>)
   = (Inr \<lparr>token = ''new'', refresh_token = Some ''r'', expired = False, valid = True\<rparr>,
      Saved \<lparr>token = ''old'', refresh_token = Some ''r'', expired = True, valid = False\<rparr>)"
  by (simp add: get_authenticated_services_def after_refresh_def load_creds_def truthy_def
      build_services_def)

lemma acquired_credential_persisted_example:
  "get_authenticated_services
     \<lparr>refresh = (\<lambda>c. Inl AuthError),
      client_secrets_exists = True,
      run_local_server = Inr \<lparr>token = ''new'', refresh_token = Some ''r'', expired = False, valid = True\<rparr>,
      build_error = None\<rparr>
     Absent
   = (Inr \<lparr>token = ''new'', refresh_token = Some ''r'', expired = False, valid = True\<rparr>,
      Saved \<lparr>token = ''new'', refresh_token = Some ''r'', expired = False, valid = True\<rparr>)"
  by (simp add: get_authenticated_services_def after_refresh_def load_creds_def truthy_def
      build_services_def)

end
